theory Spec2Isabelle
  imports Main
begin

section \<open>JavaScript values and helpers\<close>

text \<open>
  The page generator of \<^verbatim>\<open>src/pages/index.tsx\<close> turns a validated OpenAPI document into a
  GitBook bundle. Strings are lists of characters. Every exception the code can raise
  is a value of \<open>error\<close>: \<open>TypeError\<close> is the property access on \<^verbatim>\<open>undefined\<close>,
  \<open>NotJsonOrYaml\<close> the file-name check of \<^verbatim>\<open>handleFileUpload\<close>, \<open>ParserError\<close> a
  rejection by \<^verbatim>\<open>YAML.parse\<close> or \<^verbatim>\<open>SwaggerParser.validate\<close>.
\<close>

datatype error = TypeError | NotJsonOrYaml | ParserError

text \<open>A template literal prints an absent value as the text \<^verbatim>\<open>undefined\<close>.\<close>

definition js_string :: "string option \<Rightarrow> string" where
  "js_string v = (case v of None \<Rightarrow> ''undefined'' | Some s \<Rightarrow> s)"

text \<open>\<^verbatim>\<open>Array.prototype.join\<close> on an array of strings.\<close>

fun join :: "string \<Rightarrow> string list \<Rightarrow> string" where
  "join sep [] = []"
| "join sep [x] = x"
| "join sep (x # y # ys) = x @ sep @ join sep (y # ys)"

text \<open>
  \<^verbatim>\<open>String.prototype.trim\<close>. The only string trimmed is the page template. It begins
  with a line feed and \<^verbatim>\<open>#\<close>, and what follows its last \<^verbatim>\<open>)\<close>, \<^verbatim>\<open>}\<close> or
  \<^verbatim>\<open>undefined\<close> is line feeds and blanks of the template itself, so ASCII white space is
  all that is ever removed.
\<close>

definition isWhiteSpace :: "char \<Rightarrow> bool" where
  "isWhiteSpace c = (c \<in> set [CHR 0x09, CHR 0x0A, CHR 0x0B, CHR 0x0C, CHR 0x0D, CHR 0x20])"

definition trim :: "string \<Rightarrow> string" where
  "trim s = rev (dropWhile isWhiteSpace (rev (dropWhile isWhiteSpace s)))"

definition endsWith :: "string \<Rightarrow> string \<Rightarrow> bool" where
  "endsWith s suf = (length suf \<le> length s \<and> drop (length s - length suf) s = suf)"

text \<open>
  A JavaScript \<^verbatim>\<open>Map\<close> (and the \<^verbatim>\<open>files\<close> table of a JSZip object): an association
  list in insertion order. Setting a key that is present replaces the value in place.
\<close>

fun map_set :: "('k \<times> 'v) list \<Rightarrow> 'k \<Rightarrow> 'v \<Rightarrow> ('k \<times> 'v) list" where
  "map_set [] k v = [(k, v)]"
| "map_set ((k', v') # m) k v = (if k' = k then (k, v) # m else (k', v') # map_set m k v)"

fun map_get :: "('k \<times> 'v) list \<Rightarrow> 'k \<Rightarrow> 'v option" where
  "map_get [] k = None"
| "map_get ((k', v') # m) k = (if k' = k then Some v' else map_get m k)"

section \<open>The data model\<close>

record ExternalDocumentationObject =
  ed_description :: "string option"
  url :: string

record TagObject =
  name :: string
  description :: "string option"
  externalDocs :: "ExternalDocumentationObject option"

text \<open>
  An entry of a path item. Only \<open>tags\<close> is read by the generator; it is \<open>None\<close> when
  the entry has no \<^verbatim>\<open>tags\<close> property. \<open>operationId\<close> stands for the fields the
  generator passes along unread.
\<close>

record OperationObject =
  tags :: "string list option"
  operationId :: "string option"

text \<open>
  The validated document: \<^verbatim>\<open>info.title\<close>, \<^verbatim>\<open>paths\<close> and \<^verbatim>\<open>tags\<close>. The two objects
  under \<open>paths\<close> are given as \<^verbatim>\<open>Object.entries\<close> lists them.
\<close>

type_synonym PathsObject = "(string \<times> (string \<times> OperationObject) list) list"

record Document =
  info_title :: string
  paths :: "PathsObject option"
  doc_tags :: "TagObject list option"

record Endpoint =
  operationObject :: OperationObject
  path :: string
  operation :: string

record GitBookFile =
  file_path :: string
  contents :: string

text \<open>
  The keys of the tag map are object references, compared by identity: the object
  \<^verbatim>\<open>untaggedTag\<close> made by \<^verbatim>\<open>collateTags\<close>, an element of \<^verbatim>\<open>api.tags\<close> (named by its
  position; \<^verbatim>\<open>find\<close> returns the first element with the name, so one object is never
  reached at two positions), or \<^verbatim>\<open>undefined\<close>.
\<close>

datatype tag_ref = RefUntagged | RefDeclared nat | RefUndefined

type_synonym tag_map = "(tag_ref \<times> Endpoint list) list"

definition untaggedTag :: TagObject where
  "untaggedTag = \<lparr>name = ''__internal-untagged'', description = None, externalDocs = None\<rparr>"

fun deref :: "TagObject list \<Rightarrow> tag_ref \<Rightarrow> TagObject option" where
  "deref heap RefUntagged = Some untaggedTag"
| "deref heap (RefDeclared i) = (if i < length heap then Some (heap ! i) else None)"
| "deref heap RefUndefined = None"

section \<open>Rendering\<close>

definition validateFileIsJsonOrYaml :: "string \<Rightarrow> bool" where
  "validateFileIsJsonOrYaml file_name = (endsWith file_name ''.json'' \<or> endsWith file_name ''.yaml'')"

definition createGitBookOpenAPITag :: "Endpoint \<Rightarrow> string" where
  \<open>createGitBookOpenAPITag endpoint =
     ''\<newline>{% swagger src="./.gitbook/assets/openapi.yaml" path="'' @ path endpoint
       @ ''" method="'' @ operation endpoint @ ''" %}''
     @ ''\<newline>[openapi.yaml](<./.gitbook/assets/openapi.yaml>)''
     @ ''\<newline>{% endswagger %}''
     @ ''\<newline>  ''\<close>

text \<open>
  \<^verbatim>\<open>createTagPage\<close> reads \<^verbatim>\<open>tag.name\<close> first, which raises when the tag is
  \<^verbatim>\<open>undefined\<close> (\<open>None\<close> here).
\<close>

definition createTagPage :: "TagObject option \<Rightarrow> Endpoint list \<Rightarrow> error + GitBookFile" where
  "createTagPage tag_opt endpoints =
     (case tag_opt of
        None \<Rightarrow> Inl TypeError
      | Some tag \<Rightarrow>
          Inr \<lparr>file_path = name tag @ ''.md'',
               contents = trim
                 (''\<newline># '' @ name tag
                  @ ''\<newline>\<newline>'' @ js_string (description tag)
                  @ ''\<newline>\<newline>''
                  @ js_string (case externalDocs tag of
                       None \<Rightarrow> None
                     | Some docs \<Rightarrow>
                         Some (''['' @ js_string (ed_description docs) @ ''](''
                               @ url docs @ '')''))
                  @ ''\<newline>\<newline>''
                  @ join ''\<newline>\<newline>'' (map createGitBookOpenAPITag endpoints)
                  @ ''\<newline>  '')\<rparr>)"

definition createSummaryFile :: "GitBookFile list \<Rightarrow> string" where
  "createSummaryFile gitBookFiles =
     ''# Table of contents\<newline>\<newline>''
     @ join ''\<newline>'' (map (\<lambda>f. ''['' @ file_path f @ '']('' @ file_path f @ '')'') gitBookFiles)"

definition createReadmeFile :: "Document \<Rightarrow> string" where
  "createReadmeFile spec = ''# '' @ info_title spec"

text \<open>
  \<^verbatim>\<open>makePagesForTagGroups\<close> walks the entries of the map in insertion order. The keys are
  references, so the model takes the tag list they point into as \<open>heap\<close>.
\<close>

fun makePagesForTagGroups :: "TagObject list \<Rightarrow> tag_map \<Rightarrow> error + GitBookFile list" where
  "makePagesForTagGroups heap [] = Inr []"
| "makePagesForTagGroups heap ((tag, endpoint) # rest) =
     (case createTagPage (deref heap tag) endpoint of
        Inl e \<Rightarrow> Inl e
      | Inr page \<Rightarrow>
          (case makePagesForTagGroups heap rest of
             Inl e \<Rightarrow> Inl e
           | Inr pages \<Rightarrow> Inr (page # pages)))"

section \<open>Collation\<close>

text \<open>
  The flattening at the head of \<^verbatim>\<open>collateTags\<close>: one endpoint for every entry of every
  path item, paths first, then the entries of each.
\<close>

definition operations :: "PathsObject \<Rightarrow> Endpoint list" where
  "operations ps =
     concat (map (\<lambda>(p, ops).
       map (\<lambda>(operation, operationObject).
         \<lparr>operationObject = operationObject, path = p, operation = operation\<rparr>) ops) ps)"

text \<open>\<^verbatim>\<open>api.tags.find(({ name }) => name === tagName)\<close>, counting positions from \<open>i\<close>.\<close>

fun find_from :: "nat \<Rightarrow> TagObject list \<Rightarrow> string \<Rightarrow> tag_ref" where
  "find_from i [] tagName = RefUndefined"
| "find_from i (t # ts) tagName =
     (if name t = tagName then RefDeclared i else find_from (Suc i) ts tagName)"

definition find_tag :: "TagObject list \<Rightarrow> string \<Rightarrow> tag_ref" where
  "find_tag api_tags tagName = find_from 0 api_tags tagName"

text \<open>
  \<^verbatim>\<open>tagMap.set(tag, [...(tagMap.get(tag) || []), { path, operation, operationObject }])\<close>.
  A stored array is never falsy, so the alternative is taken exactly for a missing key.
\<close>

definition get_or_empty :: "tag_map \<Rightarrow> tag_ref \<Rightarrow> Endpoint list" where
  "get_or_empty tagMap tag = (case map_get tagMap tag of None \<Rightarrow> [] | Some es \<Rightarrow> es)"

definition append_endpoint :: "tag_map \<Rightarrow> tag_ref \<Rightarrow> Endpoint \<Rightarrow> tag_map" where
  "append_endpoint tagMap tag e = map_set tagMap tag (get_or_empty tagMap tag @ [e])"

text \<open>
  The inner loop over the tag names of one operation. \<^verbatim>\<open>api.tags.find\<close> raises when the
  document has no \<^verbatim>\<open>tags\<close>.
\<close>

fun forEach_tagName ::
  "TagObject list option \<Rightarrow> Endpoint \<Rightarrow> string list \<Rightarrow> tag_map \<Rightarrow> error + tag_map" where
  "forEach_tagName api_tags e [] tagMap = Inr tagMap"
| "forEach_tagName api_tags e (tagName # rest) tagMap =
     (case api_tags of
        None \<Rightarrow> Inl TypeError
      | Some ts \<Rightarrow> forEach_tagName api_tags e rest (append_endpoint tagMap (find_tag ts tagName) e))"

text \<open>
  The body of the outer loop. \<^verbatim>\<open>operationObject.tags.length\<close> raises when the entry has
  no \<^verbatim>\<open>tags\<close>.
\<close>

definition collate_operation ::
  "TagObject list option \<Rightarrow> tag_map \<Rightarrow> Endpoint \<Rightarrow> error + tag_map" where
  "collate_operation api_tags tagMap e =
     (case tags (operationObject e) of
        None \<Rightarrow> Inl TypeError
      | Some ts \<Rightarrow>
          forEach_tagName api_tags e ts
            (if length ts = 0 then append_endpoint tagMap RefUntagged e else tagMap))"

fun forEach_operation ::
  "TagObject list option \<Rightarrow> Endpoint list \<Rightarrow> tag_map \<Rightarrow> error + tag_map" where
  "forEach_operation api_tags [] tagMap = Inr tagMap"
| "forEach_operation api_tags (e # es) tagMap =
     (case collate_operation api_tags tagMap e of
        Inl err \<Rightarrow> Inl err
      | Inr tagMap' \<Rightarrow> forEach_operation api_tags es tagMap')"

text \<open>\<^verbatim>\<open>Object.entries(api.paths)\<close> raises when the document has no \<^verbatim>\<open>paths\<close>.\<close>

definition collateTags :: "Document \<Rightarrow> error + tag_map" where
  "collateTags api =
     (case paths api of
        None \<Rightarrow> Inl TypeError
      | Some ps \<Rightarrow> forEach_operation (doc_tags api) (operations ps) [])"

section \<open>The archive\<close>

text \<open>
  JSZip is a library the generator calls; its \<^verbatim>\<open>file\<close> and \<^verbatim>\<open>folder\<close> methods are modelled
  after its \<^verbatim>\<open>fileAdd\<close> and \<^verbatim>\<open>folderAdd\<close>. An entry is dated with the current time, read
  first; \<open>ticks\<close> counts the reads of the system clock and \<open>clock k\<close> is the time the
  \<open>k\<close>-th read returns. With the default \<^verbatim>\<open>createFolders\<close>, adding an entry first adds
  the directory entry of its parent folder when that is missing, which in turn adds its own
  parent; the entry itself is stored last.
\<close>

record ZipObject =
  dir :: bool
  data :: string
  date :: nat

record JSZip =
  files :: "(string \<times> ZipObject) list"
  ticks :: nat

definition forceTrailingSlash :: "string \<Rightarrow> string" where
  "forceTrailingSlash nm = (if endsWith nm ''/'' then nm else nm @ ''/'')"

text \<open>\<^verbatim>\<open>String.prototype.lastIndexOf\<close> for one character; \<open>None\<close> is the result \<^verbatim>\<open>-1\<close>.\<close>

fun lastIndexOf :: "string \<Rightarrow> char \<Rightarrow> nat option" where
  "lastIndexOf [] c = None"
| "lastIndexOf (x # xs) c =
     (case lastIndexOf xs c of
        Some i \<Rightarrow> Some (Suc i)
      | None \<Rightarrow> if x = c then Some 0 else None)"

text \<open>
  \<^verbatim>\<open>parentFolder\<close>: the name up to its last slash, a slash at the very end not counted; empty
  when there is no such slash or it is the first character.
\<close>

definition parentFolder :: "string \<Rightarrow> string" where
  "parentFolder nm =
     (let nm = (if endsWith nm ''/'' then butlast nm else nm)
      in case lastIndexOf nm CHR ''/'' of
           None \<Rightarrow> []
         | Some lastSlash \<Rightarrow> if lastSlash > 0 then take lastSlash nm else [])"

text \<open>The name an entry is stored under: a directory gets its slash.\<close>

definition entry_name :: "string \<Rightarrow> bool \<Rightarrow> string" where
  "entry_name nm is_dir = (if is_dir then forceTrailingSlash nm else nm)"

function fileAdd :: "(nat \<Rightarrow> nat) \<Rightarrow> JSZip \<Rightarrow> string \<Rightarrow> bool \<Rightarrow> string \<Rightarrow> JSZip" where
  "fileAdd clock z nm is_dir content =
     (let parent = parentFolder (entry_name nm is_dir);
          z' = (if parent \<noteq> [] \<and> map_get (files z) (forceTrailingSlash parent) = None
                then fileAdd clock (z\<lparr>ticks := Suc (ticks z)\<rparr>) (forceTrailingSlash parent) True []
                else z\<lparr>ticks := Suc (ticks z)\<rparr>)
      in z'\<lparr>files := map_set (files z') (entry_name nm is_dir)
                \<lparr>dir = is_dir, data = content, date = clock (ticks z)\<rparr>\<rparr>)"
  by pat_completeness auto
termination
proof (relation "measure (\<lambda>(clock, z, nm, is_dir, content). length (forceTrailingSlash nm))")
  show "wf (measure (\<lambda>(clock, z, nm, is_dir, content). length (forceTrailingSlash nm)))" by simp
next
  fix clock :: "nat \<Rightarrow> nat" and z :: JSZip and nm :: string and is_dir :: bool
    and content :: string and parent :: string
  assume parent: "parent = parentFolder (entry_name nm is_dir)"
    and missing: "parent \<noteq> [] \<and> map_get (files z) (forceTrailingSlash parent) = None"
  have index: "lastIndexOf s c = Some i \<Longrightarrow> i < length s" for s c i
    by (induction s arbitrary: i) (auto split: option.splits if_splits)
  have slash: "length (forceTrailingSlash p) = length (if endsWith p ''/'' then butlast p else p) + 1"
    for p
    by (auto simp: forceTrailingSlash_def endsWith_def)
  have shorter: "parentFolder p \<noteq> [] \<Longrightarrow> length (parentFolder p) + 1 < length (forceTrailingSlash p)"
    for p
    unfolding slash
    by (auto simp: parentFolder_def Let_def split: option.splits if_splits dest!: index)
  have same: "forceTrailingSlash (entry_name nm is_dir) = forceTrailingSlash nm"
    by (simp add: entry_name_def forceTrailingSlash_def endsWith_def)
  have "length (forceTrailingSlash parent) \<le> length parent + 1"
    by (simp add: forceTrailingSlash_def)
  moreover from missing have "parentFolder (entry_name nm is_dir) \<noteq> []" by (simp add: parent)
  from shorter [OF this] have "length parent + 1 < length (forceTrailingSlash nm)"
    by (simp add: parent same)
  ultimately have "length (forceTrailingSlash parent) < length (forceTrailingSlash nm)" by simp
  moreover have "forceTrailingSlash (forceTrailingSlash parent) = forceTrailingSlash parent"
    by (simp add: forceTrailingSlash_def endsWith_def)
  ultimately show "((clock, z\<lparr>ticks := Suc (ticks z)\<rparr>, forceTrailingSlash parent, True, []),
              clock, z, nm, is_dir, content)
             \<in> measure (\<lambda>(clock, z, nm, is_dir, content). length (forceTrailingSlash nm))"
    by simp
qed

text \<open>
  \<^verbatim>\<open>file(name, data)\<close> on an object with the given root, and \<^verbatim>\<open>folder(name)\<close>, which adds the
  directory entry when it is missing and returns an object on the same table whose root is
  that directory.
\<close>

definition zip_file :: "(nat \<Rightarrow> nat) \<Rightarrow> string \<Rightarrow> JSZip \<Rightarrow> string \<Rightarrow> string \<Rightarrow> JSZip" where
  "zip_file clock root z nm content = fileAdd clock z (root @ nm) False content"

definition zip_folder :: "(nat \<Rightarrow> nat) \<Rightarrow> string \<Rightarrow> JSZip \<Rightarrow> string \<Rightarrow> string \<times> JSZip" where
  "zip_folder clock root z nm =
     (let full = forceTrailingSlash (root @ nm)
      in (full, if map_get (files z) full = None then fileAdd clock z full True [] else z))"

text \<open>
  \<^verbatim>\<open>createZipBundle\<close>. \<^verbatim>\<open>generateAsync\<close> serialises the table; the model returns the table.
\<close>

definition createZipBundle ::
  "(nat \<Rightarrow> nat) \<Rightarrow> GitBookFile list \<Rightarrow> string \<Rightarrow> Document \<Rightarrow> JSZip" where
  "createZipBundle clock gitBookFiles spec parsedSpec =
     (let bundle = \<lparr>files = [], ticks = 0\<rparr>;
          bundle = zip_file clock [] bundle ''SUMMARY.md'' (createSummaryFile gitBookFiles);
          bundle = zip_file clock [] bundle ''README.md'' (createReadmeFile parsedSpec);
          bundle = foldl (\<lambda>b f. zip_file clock [] b (file_path f) (contents f)) bundle gitBookFiles;
          (gitbookPrivateFolder, bundle) = zip_folder clock [] bundle ''.gitbook''
      in zip_file clock gitbookPrivateFolder bundle ''openapi.yaml'' spec)"

text \<open>The contents of the entry with a given name, if there is one.\<close>

definition entry_data :: "JSZip \<Rightarrow> string \<Rightarrow> string option" where
  "entry_data z nm = map_option data (map_get (files z) nm)"

section \<open>The run\<close>

text \<open>The tag list the keys of the map point into; empty when the document has none.\<close>

definition declared_tags :: "Document \<Rightarrow> TagObject list" where
  "declared_tags api = (case doc_tags api of None \<Rightarrow> [] | Some ts \<Rightarrow> ts)"

text \<open>
  \<^verbatim>\<open>handleFileUpload\<close>, from the decoded text of the file on. \<open>validate\<close> stands for
  \<^verbatim>\<open>YAML.parse\<close> followed by \<^verbatim>\<open>SwaggerParser.validate\<close>, two library calls.
\<close>

definition handleFileUpload ::
  "(string \<Rightarrow> error + Document) \<Rightarrow> (nat \<Rightarrow> nat) \<Rightarrow> string \<Rightarrow> string \<Rightarrow> error + JSZip" where
  "handleFileUpload validate clock file_name filecontentsdecoded =
     (if \<not> validateFileIsJsonOrYaml file_name then Inl NotJsonOrYaml
      else case validate filecontentsdecoded of
        Inl e \<Rightarrow> Inl e
      | Inr api \<Rightarrow>
          (case collateTags api of
             Inl e \<Rightarrow> Inl e
           | Inr endpointsGroupedByTag \<Rightarrow>
               (case makePagesForTagGroups (declared_tags api) endpointsGroupedByTag of
                  Inl e \<Rightarrow> Inl e
                | Inr pages \<Rightarrow> Inr (createZipBundle clock pages filecontentsdecoded api))))"

section \<open>Notions used to state the properties\<close>

text \<open>
  The keys one endpoint is filed under, in the order \<^verbatim>\<open>collateTags\<close> files it: the untagged
  key for an empty tag list, otherwise what each tag name resolves to.
\<close>

definition endpoint_keys :: "TagObject list \<Rightarrow> Endpoint \<Rightarrow> tag_ref list" where
  "endpoint_keys heap e =
     (case tags (operationObject e) of
        None \<Rightarrow> []
      | Some ts \<Rightarrow> if ts = [] then [RefUntagged] else map (find_tag heap) ts)"

text \<open>All the (key, endpoint) insertions of a traversal, in order, and their effect on a map.\<close>

definition insertions :: "TagObject list \<Rightarrow> Endpoint list \<Rightarrow> (tag_ref \<times> Endpoint) list" where
  "insertions heap es = concat (map (\<lambda>e. map (\<lambda>k. (k, e)) (endpoint_keys heap e)) es)"

definition insert_all :: "tag_map \<Rightarrow> (tag_ref \<times> Endpoint) list \<Rightarrow> tag_map" where
  "insert_all m evs = foldl (\<lambda>m (k, e). append_endpoint m k e) m evs"

definition insert_new :: "'k list \<Rightarrow> 'k \<Rightarrow> 'k list" where
  "insert_new ks k = (if k \<in> set ks then ks else ks @ [k])"

text \<open>
  A JavaScript object has each key once, so \<^verbatim>\<open>Object.entries\<close> never lists a path or a
  method twice.
\<close>

definition unique_keys :: "PathsObject \<Rightarrow> bool" where
  "unique_keys ps = (distinct (map fst ps) \<and> (\<forall>(p, ops) \<in> set ps. distinct (map fst ops)))"

text \<open>
  The documents \<^verbatim>\<open>collateTags\<close> returns on: there are paths, every entry of a path item
  has a \<^verbatim>\<open>tags\<close> array, and the document has a tag list when one of them is not empty.
\<close>

definition collatable :: "Document \<Rightarrow> bool" where
  "collatable api =
     (case paths api of
        None \<Rightarrow> False
      | Some ps \<Rightarrow>
          (\<forall>e \<in> set (operations ps).
             case tags (operationObject e) of
               None \<Rightarrow> False
             | Some ts \<Rightarrow> ts = [] \<or> doc_tags api \<noteq> None))"

text \<open>
  The lines of a text (\<^verbatim>\<open>split\<close> at line feeds), the link the summary writes for a page
  path, and the links of a summary: its lines after the heading and the empty line.
\<close>

fun split_lines :: "string \<Rightarrow> string list" where
  "split_lines [] = [[]]"
| "split_lines (c # cs) =
     (if c = CHR 0x0A then [] # split_lines cs
      else (case split_lines cs of [] \<Rightarrow> [[c]] | l # ls \<Rightarrow> (c # l) # ls))"

definition link :: "string \<Rightarrow> string" where
  "link p = ''['' @ p @ '']('' @ p @ '')''"

definition summary_links :: "string \<Rightarrow> string list" where
  "summary_links s = filter (\<lambda>l. l \<noteq> []) (drop 2 (split_lines s))"

section \<open>Example documents\<close>

text \<open>
  The example of the specification: one tag \<^verbatim>\<open>pets\<close>, \<^verbatim>\<open>GET /pets\<close> tagged with it and
  \<^verbatim>\<open>POST /owners\<close> with no tag; and a JSON text for it.
\<close>

definition petstore_paths :: PathsObject where
  "petstore_paths =
     [(''/pets'', [(''get'', \<lparr>tags = Some [''pets''], operationId = None\<rparr>)]),
      (''/owners'', [(''post'', \<lparr>tags = Some [], operationId = None\<rparr>)])]"

definition petstore :: Document where
  "petstore =
     \<lparr>info_title = ''Pet Store'',
      paths = Some petstore_paths,
      doc_tags = Some [\<lparr>name = ''pets'', description = None, externalDocs = None\<rparr>]\<rparr>"

definition petstore_json :: string where
  \<open>petstore_json = ''{"openapi": "3.0.0", "info": {"title": "Pet Store", "version": "1"}}''\<close>

text \<open>A document whose operations all have tags.\<close>

definition all_tagged_paths :: PathsObject where
  "all_tagged_paths =
     [(''/pets'', [(''get'', \<lparr>tags = Some [''pets''], operationId = None\<rparr>),
                   (''post'', \<lparr>tags = Some [''pets'', ''admin''], operationId = None\<rparr>)]),
      (''/owners'', [(''get'', \<lparr>tags = Some [''admin''], operationId = None\<rparr>)])]"

definition all_tagged_doc :: Document where
  "all_tagged_doc =
     \<lparr>info_title = ''Pet Store'',
      paths = Some all_tagged_paths,
      doc_tags = Some [\<lparr>name = ''admin'', description = Some ''Back office'', externalDocs = None\<rparr>,
                       \<lparr>name = ''pets'', description = None, externalDocs = None\<rparr>]\<rparr>"

text \<open>An operation with no \<^verbatim>\<open>tags\<close> property, which OpenAPI allows.\<close>

definition untagged_field_doc :: Document where
  "untagged_field_doc =
     \<lparr>info_title = ''Pet Store'',
      paths = Some [(''/pets'', [(''get'', \<lparr>tags = None, operationId = Some ''listPets''\<rparr>)])],
      doc_tags = Some [\<lparr>name = ''pets'', description = None, externalDocs = None\<rparr>]\<rparr>"

text \<open>
  Three documents OpenAPI allows: the example with \<^verbatim>\<open>POST /owners\<close> leaving \<^verbatim>\<open>tags\<close> out, a
  path item with \<^verbatim>\<open>parameters\<close> beside its operation (an entry that has no \<^verbatim>\<open>tags\<close>), and a
  tagged operation in a document with no tag list.
\<close>

definition no_tags_field_paths :: PathsObject where
  "no_tags_field_paths =
     [(''/pets'', [(''get'', \<lparr>tags = Some [''pets''], operationId = None\<rparr>)]),
      (''/owners'', [(''post'', \<lparr>tags = None, operationId = Some ''createOwner''\<rparr>)])]"

definition no_tags_field_doc :: Document where
  "no_tags_field_doc =
     \<lparr>info_title = ''Pet Store'',
      paths = Some no_tags_field_paths,
      doc_tags = Some [\<lparr>name = ''pets'', description = None, externalDocs = None\<rparr>]\<rparr>"

definition path_parameters_doc :: Document where
  "path_parameters_doc =
     \<lparr>info_title = ''Pet Store'',
      paths = Some [(''/pets/{id}'',
                     [(''parameters'', \<lparr>tags = None, operationId = None\<rparr>),
                      (''get'', \<lparr>tags = Some [], operationId = None\<rparr>)])],
      doc_tags = Some []\<rparr>"

definition no_tag_list_doc :: Document where
  "no_tag_list_doc =
     \<lparr>info_title = ''Pet Store'',
      paths = Some [(''/pets'', [(''get'', \<lparr>tags = Some [''pets''], operationId = None\<rparr>)])],
      doc_tags = None\<rparr>"

text \<open>An operation that names a tag the document does not declare.\<close>

definition unknown_tag_doc :: Document where
  "unknown_tag_doc =
     \<lparr>info_title = ''Pet Store'',
      paths = Some [(''/pets'', [(''get'', \<lparr>tags = Some [''missing''], operationId = None\<rparr>)])],
      doc_tags = Some [\<lparr>name = ''pets'', description = None, externalDocs = None\<rparr>]\<rparr>"

text \<open>A tag with a name and nothing else.\<close>

definition bare_tag :: TagObject where
  "bare_tag = \<lparr>name = ''pets'', description = None, externalDocs = None\<rparr>"

text \<open>The tag maps \<^verbatim>\<open>collateTags\<close> returns on these documents.\<close>

definition petstore_groups :: tag_map where
  "petstore_groups =
     [(RefDeclared 0,
       [\<lparr>operationObject = \<lparr>tags = Some [''pets''], operationId = None\<rparr>,
         path = ''/pets'', operation = ''get''\<rparr>]),
      (RefUntagged,
       [\<lparr>operationObject = \<lparr>tags = Some [], operationId = None\<rparr>,
         path = ''/owners'', operation = ''post''\<rparr>])]"

definition all_tagged_groups :: tag_map where
  "all_tagged_groups =
     [(RefDeclared 1,
       [\<lparr>operationObject = \<lparr>tags = Some [''pets''], operationId = None\<rparr>,
         path = ''/pets'', operation = ''get''\<rparr>,
        \<lparr>operationObject = \<lparr>tags = Some [''pets'', ''admin''], operationId = None\<rparr>,
         path = ''/pets'', operation = ''post''\<rparr>]),
      (RefDeclared 0,
       [\<lparr>operationObject = \<lparr>tags = Some [''pets'', ''admin''], operationId = None\<rparr>,
         path = ''/pets'', operation = ''post''\<rparr>,
        \<lparr>operationObject = \<lparr>tags = Some [''admin''], operationId = None\<rparr>,
         path = ''/owners'', operation = ''get''\<rparr>])]"

definition unknown_tag_groups :: tag_map where
  "unknown_tag_groups =
     [(RefUndefined,
       [\<lparr>operationObject = \<lparr>tags = Some [''missing''], operationId = None\<rparr>,
         path = ''/pets'', operation = ''get''\<rparr>])]"

section \<open>The tag map as an association list\<close>

text \<open>
  Reading after writing, and what a write does to the order of the keys.
\<close>

lemma map_get_map_set:
  "map_get (map_set m k v) k' = (if k' = k then Some v else map_get m k')"
  by (induction m) auto

lemma keys_map_set:
  "map fst (map_set m k v) = (if k \<in> set (map fst m) then map fst m else map fst m @ [k])"
proof (induction m)
  case Nil
  then show ?case by simp
next
  case (Cons kv m)
  obtain k' v' where kv: "kv = (k', v')" by (cases kv)
  show ?case
  proof (cases "k' = k")
    case True
    then show ?thesis by (simp add: kv)
  next
    case False
    with Cons show ?thesis by (simp add: kv)
  qed
qed

lemma distinct_keys_map_set:
  "distinct (map fst m) \<Longrightarrow> distinct (map fst (map_set m k v))"
  by (simp add: keys_map_set)

lemma map_get_None_iff: "map_get m k = None \<longleftrightarrow> k \<notin> set (map fst m)"
proof (induction m)
  case Nil
  then show ?case by simp
next
  case (Cons kv m)
  obtain k' v' where kv: "kv = (k', v')" by (cases kv)
  from Cons show ?case by (simp add: kv)
qed

lemma map_get_Some_iff:
  "distinct (map fst m) \<Longrightarrow> map_get m k = Some v \<longleftrightarrow> (k, v) \<in> set m"
proof (induction m)
  case Nil
  then show ?case by simp
next
  case (Cons kv m)
  obtain k' v' where kv: "kv = (k', v')" by (cases kv)
  from Cons.prems have notin: "k' \<notin> fst ` set m" and d: "distinct (map fst m)"
    by (simp_all add: kv)
  show ?case
  proof (cases "k' = k")
    case True
    with notin have "\<And>w. (k, w) \<notin> set m" by force
    with True show ?thesis by (auto simp: kv)
  next
    case False
    with Cons.IH [OF d] show ?thesis by (simp add: kv)
  qed
qed

section \<open>The loops of collateTags as a sequence of insertions\<close>

text \<open>
  When the two loops of \<^verbatim>\<open>collateTags\<close> return, the map is the one the insertions of the
  traversal build; its keys are in the order of their first insertion and each group holds
  the endpoints inserted under its key, in order.
\<close>

lemma insert_all_Nil [simp]: "insert_all m [] = m"
  by (simp add: insert_all_def)

lemma insert_all_Cons [simp]: "insert_all m ((k, e) # evs) = insert_all (append_endpoint m k e) evs"
  by (simp add: insert_all_def)

lemma insert_all_append [simp]: "insert_all m (xs @ ys) = insert_all (insert_all m xs) ys"
  by (simp add: insert_all_def)

lemma forEach_tagName_Some:
  "forEach_tagName (Some heap) e ts m = Inr (insert_all m (map (\<lambda>k. (k, e)) (map (find_tag heap) ts)))"
  by (induction ts arbitrary: m) auto

lemma forEach_tagName_None:
  "forEach_tagName None e ts m = (if ts = [] then Inr m else Inl TypeError)"
  by (cases ts) auto

lemma collate_operation_Inr:
  assumes "collate_operation dt m e = Inr m'"
  shows "m' = insert_all m (map (\<lambda>k. (k, e)) (endpoint_keys (case dt of None \<Rightarrow> [] | Some ts \<Rightarrow> ts) e))
         \<and> (\<exists>ts. tags (operationObject e) = Some ts \<and> (ts = [] \<or> dt \<noteq> None))"
  using assms
  by (cases dt)
     (auto simp: collate_operation_def endpoint_keys_def forEach_tagName_Some forEach_tagName_None
           split: option.splits if_splits)

lemma forEach_operation_Inr:
  assumes "forEach_operation dt es m = Inr m'"
  shows "m' = insert_all m (insertions (case dt of None \<Rightarrow> [] | Some ts \<Rightarrow> ts) es)
         \<and> (\<forall>e \<in> set es. \<exists>ts. tags (operationObject e) = Some ts \<and> (ts = [] \<or> dt \<noteq> None))"
  using assms
proof (induction es arbitrary: m)
  case Nil
  then show ?case by (simp add: insertions_def)
next
  case (Cons e es)
  from Cons.prems obtain m1 where
    step: "collate_operation dt m e = Inr m1" and rest: "forEach_operation dt es m1 = Inr m'"
    by (auto split: sum.splits)
  from collate_operation_Inr [OF step] Cons.IH [OF rest] show ?case
    by (simp add: insertions_def)
qed

lemma collate_operation_total:
  assumes "tags (operationObject e) = Some ts" and "ts = [] \<or> dt \<noteq> None"
  shows "\<exists>m'. collate_operation dt m e = Inr m'"
  using assms
  by (cases dt) (auto simp: collate_operation_def forEach_tagName_Some forEach_tagName_None)

lemma forEach_operation_total:
  assumes "\<forall>e \<in> set es. \<exists>ts. tags (operationObject e) = Some ts \<and> (ts = [] \<or> dt \<noteq> None)"
  shows "\<exists>m'. forEach_operation dt es m = Inr m'"
  using assms
proof (induction es arbitrary: m)
  case Nil
  then show ?case by simp
next
  case (Cons e es)
  then obtain ts where "tags (operationObject e) = Some ts" "ts = [] \<or> dt \<noteq> None" by auto
  from collate_operation_total [OF this] obtain m1 where "collate_operation dt m e = Inr m1" by blast
  with Cons show ?case by auto
qed

lemma keys_append_endpoint:
  "map fst (append_endpoint m k e) = insert_new (map fst m) k"
  by (simp add: append_endpoint_def keys_map_set insert_new_def)

lemma keys_insert_all:
  "map fst (insert_all m evs) = foldl insert_new (map fst m) (map fst evs)"
proof (induction evs arbitrary: m)
  case Nil
  then show ?case by simp
next
  case (Cons ev evs)
  obtain k e where ev: "ev = (k, e)" by (cases ev)
  show ?case by (simp add: ev Cons.IH keys_append_endpoint)
qed

lemma get_or_empty_append_endpoint:
  "get_or_empty (append_endpoint m k e) k' =
     (if k' = k then get_or_empty m k @ [e] else get_or_empty m k')"
  by (simp add: append_endpoint_def get_or_empty_def map_get_map_set)

lemma get_or_empty_insert_all:
  "get_or_empty (insert_all m evs) k = get_or_empty m k @ map snd (filter (\<lambda>ev. fst ev = k) evs)"
proof (induction evs arbitrary: m)
  case Nil
  then show ?case by simp
next
  case (Cons ev evs)
  obtain k' e where ev: "ev = (k', e)" by (cases ev)
  show ?case by (simp add: ev Cons.IH get_or_empty_append_endpoint)
qed

lemma distinct_keys_insert_all:
  "distinct (map fst m) \<Longrightarrow> distinct (map fst (insert_all m evs))"
proof (induction evs arbitrary: m)
  case Nil
  then show ?case by simp
next
  case (Cons ev evs)
  obtain k e where ev: "ev = (k, e)" by (cases ev)
  from Cons.prems have "distinct (map fst (append_endpoint m k e))"
    by (simp add: append_endpoint_def distinct_keys_map_set)
  from Cons.IH [OF this] show ?case by (simp add: ev)
qed

lemma remdups_snoc:
  "remdups (xs @ [x]) = filter (\<lambda>y. y \<noteq> x) (remdups xs) @ [x]"
  by (induction xs) auto

lemma foldl_insert_new:
  "foldl insert_new ks xs = ks @ rev (remdups (rev (filter (\<lambda>x. x \<notin> set ks) xs)))"
proof (induction xs arbitrary: ks)
  case Nil
  then show ?case by simp
next
  case (Cons x xs)
  show ?case
  proof (cases "x \<in> set ks")
    case True
    then have "insert_new ks x = ks" by (simp add: insert_new_def)
    with True show ?thesis by (simp add: Cons.IH)
  next
    case False
    then have step: "insert_new ks x = ks @ [x]" by (simp add: insert_new_def)
    have "(\<lambda>y. y \<noteq> x \<and> y \<notin> set ks) = (\<lambda>y. y \<notin> set ks \<and> y \<noteq> x)" by auto
    with False show ?thesis
      by (simp add: Cons.IH step remdups_snoc rev_filter remdups_filter)
  qed
qed

lemma keys_first_insertion:
  "map fst (insert_all [] evs) = rev (remdups (rev (map fst evs)))"
  by (simp add: keys_insert_all foldl_insert_new)

section \<open>The flattened endpoints and the untagged group\<close>

text \<open>
  The flattened endpoints are distinct, and the insertions under the untagged key are the
  endpoints with an empty tag list.
\<close>

lemma operations_Cons:
  "operations ((p, ops) # ps) =
     map (\<lambda>(operation, operationObject).
        \<lparr>operationObject = operationObject, path = p, operation = operation\<rparr>) ops @ operations ps"
  by (simp add: operations_def)

lemma path_operations: "e \<in> set (operations ps) \<Longrightarrow> path e \<in> fst ` set ps"
proof (induction ps)
  case Nil
  then show ?case by (simp add: operations_def)
next
  case (Cons pe ps)
  obtain p ops where pe: "pe = (p, ops)" by (cases pe)
  from Cons show ?case by (auto simp: pe operations_Cons)
qed

lemma distinct_operations: "unique_keys ps \<Longrightarrow> distinct (operations ps)"
proof (induction ps)
  case Nil
  then show ?case by (simp add: operations_def)
next
  case (Cons pe ps)
  obtain p ops where pe: "pe = (p, ops)" by (cases pe)
  let ?mk = "\<lambda>(operation, operationObject).
        \<lparr>operationObject = operationObject, path = p, operation = operation\<rparr>"
  from Cons.prems have p: "p \<notin> fst ` set ps" and dops: "distinct (map fst ops)"
    and rest: "unique_keys ps"
    by (auto simp: unique_keys_def pe)
  have "inj_on ?mk (set ops)"
  proof (rule inj_onI)
    fix a b assume eq: "?mk a = ?mk b"
    obtain a1 a2 where a: "a = (a1, a2)" by (cases a)
    obtain b1 b2 where b: "b = (b1, b2)" by (cases b)
    from eq show "a = b" by (simp add: a b)
  qed
  moreover from dops have "distinct ops" by (rule distinct_map [THEN iffD1, THEN conjunct1])
  ultimately have d1: "distinct (map ?mk ops)" by (simp add: distinct_map)
  have d2: "set (map ?mk ops) \<inter> set (operations ps) = {}"
  proof (rule equals0I)
    fix e assume "e \<in> set (map ?mk ops) \<inter> set (operations ps)"
    then have 1: "e \<in> set (map ?mk ops)" and 2: "e \<in> set (operations ps)" by simp_all
    from 1 have "path e = p" by auto
    with path_operations [OF 2] p show False by simp
  qed
  from d1 d2 Cons.IH [OF rest] show ?case by (simp add: pe operations_Cons)
qed

lemma find_from_not_untagged: "find_from i ts t \<noteq> RefUntagged"
  by (induction ts arbitrary: i) auto

lemma untagged_insertions:
  "map snd (filter (\<lambda>ev. fst ev = RefUntagged) (insertions heap es))
     = filter (\<lambda>e. tags (operationObject e) = Some []) es"
proof (induction es)
  case Nil
  then show ?case by (simp add: insertions_def)
next
  case (Cons e es)
  have "map snd (filter (\<lambda>ev. fst ev = RefUntagged) (map (\<lambda>k. (k, e)) (endpoint_keys heap e)))
          = (if tags (operationObject e) = Some [] then [e] else [])"
    by (auto simp: endpoint_keys_def find_tag_def find_from_not_untagged filter_empty_conv
             split: option.splits)
  with Cons show ?case by (simp add: insertions_def)
qed

lemma groups_union:
  assumes "distinct (map fst m)"
  shows "(\<Union>(k, es) \<in> set m. set es) = (\<Union>k \<in> set (map fst m). set (get_or_empty m k))"
proof -
  have "\<And>k es. (k, es) \<in> set m \<Longrightarrow> get_or_empty m k = es"
    using assms by (simp add: get_or_empty_def map_get_Some_iff [THEN iffD2])
  then show ?thesis by force
qed

lemma endpoint_keys_empty_iff:
  "endpoint_keys heap e = [] \<longleftrightarrow> tags (operationObject e) = None"
  by (simp add: endpoint_keys_def split: option.splits)

lemma set_insertions:
  "snd ` set (insertions heap es) = {e \<in> set es. tags (operationObject e) \<noteq> None}"
proof (induction es)
  case Nil
  then show ?case by (simp add: insertions_def)
next
  case (Cons e es)
  have "snd ` set (map (\<lambda>k. (k, e)) (endpoint_keys heap e))
          = (if tags (operationObject e) = None then {} else {e})"
    using endpoint_keys_empty_iff [of heap e] by (cases "endpoint_keys heap e") (auto simp: image_iff)
  with Cons have "snd ` set (insertions heap (e # es))
     = (if tags (operationObject e) = None then {} else {e}) \<union> {e \<in> set es. tags (operationObject e) \<noteq> None}"
    by (simp add: insertions_def image_Un)
  then show ?case by auto
qed

lemma count_list_filter:
  "count_list (filter P xs) e = (if P e then count_list xs e else 0)"
  by (induction xs) auto

lemma count_list_distinct: "distinct xs \<Longrightarrow> e \<in> set xs \<Longrightarrow> count_list xs e = 1"
  by (induction xs) auto

lemma get_or_empty_Nil: "get_or_empty [] k = []"
  by (simp add: get_or_empty_def)

lemma forEach_operation_collatable:
  assumes "paths api = Some ps" and "collatable api"
  shows "\<exists>m. forEach_operation (doc_tags api) (operations ps) [] = Inr m"
proof (rule forEach_operation_total, rule ballI)
  fix e assume "e \<in> set (operations ps)"
  with assms show "\<exists>ts. tags (operationObject e) = Some ts \<and> (ts = [] \<or> doc_tags api \<noteq> None)"
    by (cases "tags (operationObject e)") (auto simp: collatable_def)
qed

lemma collateTags_Inr:
  assumes "collateTags api = Inr m"
  shows "\<exists>ps. paths api = Some ps \<and> collatable api
           \<and> m = insert_all [] (insertions (declared_tags api) (operations ps))"
proof -
  from assms obtain ps where ps: "paths api = Some ps"
    and run: "forEach_operation (doc_tags api) (operations ps) [] = Inr m"
    by (auto simp: collateTags_def split: option.splits)
  from forEach_operation_Inr [OF run] ps show ?thesis
    by (auto simp: collatable_def declared_tags_def)
qed

section \<open>When collateTags returns\<close>

text \<open>
  Every error of \<^verbatim>\<open>collateTags\<close> is a \<^verbatim>\<open>TypeError\<close>, and it returns a map exactly on the
  documents described by \<open>collatable\<close>.
\<close>

lemma forEach_tagName_error: "forEach_tagName dt e ts m = Inl err \<Longrightarrow> err = TypeError"
  by (cases dt) (auto simp: forEach_tagName_Some forEach_tagName_None split: if_splits)

lemma collate_operation_error: "collate_operation dt m e = Inl err \<Longrightarrow> err = TypeError"
  by (auto simp: collate_operation_def split: option.splits dest: forEach_tagName_error)

lemma forEach_operation_error: "forEach_operation dt es m = Inl err \<Longrightarrow> err = TypeError"
proof (induction es arbitrary: m)
  case Nil
  then show ?case by simp
next
  case (Cons e es)
  show ?case
  proof (cases "collate_operation dt m e")
    case (Inl err')
    with Cons.prems have "err' = err" by simp
    with Inl collate_operation_error show ?thesis by blast
  next
    case (Inr m1)
    with Cons.prems have "forEach_operation dt es m1 = Inl err" by simp
    then show ?thesis by (rule Cons.IH)
  qed
qed

lemma collateTags_error: "collateTags api = Inl err \<Longrightarrow> err = TypeError"
  by (auto simp: collateTags_def split: option.splits dest: forEach_operation_error)

lemma collateTags_Inr_iff: "(\<exists>m. collateTags api = Inr m) \<longleftrightarrow> collatable api"
proof
  assume "\<exists>m. collateTags api = Inr m"
  then show "collatable api" using collateTags_Inr by blast
next
  assume ok: "collatable api"
  then obtain ps where ps: "paths api = Some ps"
    by (auto simp: collatable_def split: option.splits)
  from forEach_operation_collatable [OF ps ok] ps show "\<exists>m. collateTags api = Inr m"
    by (simp add: collateTags_def)
qed

lemma set_operations:
  "set (operations ps)
     = {\<lparr>operationObject = oo, path = p, operation = m\<rparr> | p ops m oo.
          (p, ops) \<in> set ps \<and> (m, oo) \<in> set ops}"
proof (induction ps)
  case Nil
  then show ?case by (simp add: operations_def)
next
  case (Cons pe ps)
  obtain p ops where pe: "pe = (p, ops)" by (cases pe)
  have "set (operations (pe # ps))
          = (\<lambda>(m, oo). \<lparr>operationObject = oo, path = p, operation = m\<rparr>) ` set ops
            \<union> set (operations ps)"
    by (simp add: pe operations_Cons)
  also have "\<dots> = {\<lparr>operationObject = oo, path = p', operation = m\<rparr> | p' ops' m oo.
                     (p', ops') \<in> set (pe # ps) \<and> (m, oo) \<in> set ops'}"
    unfolding Cons.IH pe by (auto simp: image_iff)
  finally show ?case .
qed

text \<open>
  Where \<^verbatim>\<open>collateTags\<close> does return, its groups together hold exactly one endpoint for every
  entry of every path item; an endpoint with a tag is never in the untagged group, and an
  endpoint with an empty tag list is in it exactly once.
\<close>

lemma collateTags_groups:
  assumes res: "collateTags api = Inr m" and ps: "paths api = Some ps" and uniq: "unique_keys ps"
  shows "(\<Union>(tag, es) \<in> set m. set es)
           = {\<lparr>operationObject = oo, path = p, operation = meth\<rparr> | p ops meth oo.
                (p, ops) \<in> set ps \<and> (meth, oo) \<in> set ops}"
    and "\<forall>e. tags (operationObject e) \<noteq> Some [] \<longrightarrow> e \<notin> set (get_or_empty m RefUntagged)"
    and "\<forall>e \<in> set (operations ps). tags (operationObject e) = Some [] \<longrightarrow>
           count_list (get_or_empty m RefUntagged) e = 1"
proof -
  let ?evs = "insertions (declared_tags api) (operations ps)"
  from res ps have run: "forEach_operation (doc_tags api) (operations ps) [] = Inr m"
    by (simp add: collateTags_def)
  from forEach_operation_Inr [OF run] have m: "m = insert_all [] ?evs"
    and tagged: "\<forall>e \<in> set (operations ps). tags (operationObject e) \<noteq> None"
    by (auto simp: declared_tags_def)
  have dist: "distinct (map fst m)" unfolding m by (rule distinct_keys_insert_all) simp
  have keys: "set (map fst m) = fst ` set ?evs"
    by (simp add: m keys_first_insertion)
  have group: "\<And>k. get_or_empty m k = map snd (filter (\<lambda>ev. fst ev = k) ?evs)"
    by (simp add: m get_or_empty_insert_all get_or_empty_Nil)
  have "(\<Union>(tag, es) \<in> set m. set es) = (\<Union>k \<in> set (map fst m). set (get_or_empty m k))"
    by (rule groups_union [OF dist])
  also have "\<dots> = (\<Union>k \<in> fst ` set ?evs. set (get_or_empty m k))"
    by (simp only: keys)
  also have "\<dots> = snd ` set ?evs" unfolding group by force
  also have "\<dots> = set (operations ps)" using tagged by (auto simp: set_insertions)
  finally show "(\<Union>(tag, es) \<in> set m. set es)
           = {\<lparr>operationObject = oo, path = p, operation = meth\<rparr> | p ops meth oo.
                (p, ops) \<in> set ps \<and> (meth, oo) \<in> set ops}"
    by (simp only: set_operations)
  have untagged: "get_or_empty m RefUntagged
                    = filter (\<lambda>e. tags (operationObject e) = Some []) (operations ps)"
    by (simp add: group untagged_insertions)
  show "\<forall>e. tags (operationObject e) \<noteq> Some [] \<longrightarrow> e \<notin> set (get_or_empty m RefUntagged)"
    by (simp add: untagged)
  show "\<forall>e \<in> set (operations ps). tags (operationObject e) = Some [] \<longrightarrow>
          count_list (get_or_empty m RefUntagged) e = 1"
    using distinct_operations [OF uniq]
    by (simp add: untagged count_list_filter count_list_distinct)
qed

section \<open>The lines of the summary\<close>

text \<open>
  The summary read line by line.
\<close>

lemma split_lines_not_Nil: "split_lines s \<noteq> []"
  by (induction s) (auto split: list.splits)

lemma split_lines_append:
  "CHR 0x0A \<notin> set a \<Longrightarrow> split_lines (a @ CHR 0x0A # b) = a # split_lines b"
  by (induction a) auto

lemma split_lines_single: "CHR 0x0A \<notin> set a \<Longrightarrow> split_lines a = [a]"
  by (induction a) auto

lemma split_lines_join:
  "\<forall>l \<in> set ls. CHR 0x0A \<notin> set l \<Longrightarrow> ls \<noteq> [] \<Longrightarrow> split_lines (join ''\<newline>'' ls) = ls"
proof (induction ls)
  case Nil
  then show ?case by simp
next
  case (Cons x xs)
  show ?case
  proof (cases xs)
    case Nil
    with Cons.prems show ?thesis by (simp add: split_lines_single)
  next
    case (Cons y ys)
    with Cons.prems Cons.IH have "split_lines (join ''\<newline>'' xs) = xs" by simp
    with Cons.prems Cons show ?thesis by (simp add: split_lines_append)
  qed
qed

lemma createSummaryFile_links:
  "createSummaryFile gitBookFiles
     = ''# Table of contents'' @ ''\<newline>'' @ ''\<newline>'' @ join ''\<newline>'' (map (\<lambda>f. link (file_path f)) gitBookFiles)"
  by (simp add: createSummaryFile_def link_def)

lemma split_lines_summary:
  "split_lines (createSummaryFile gitBookFiles)
     = ''# Table of contents'' # [] # split_lines (join ''\<newline>'' (map (\<lambda>f. link (file_path f)) gitBookFiles))"
proof -
  have 1: "CHR 0x0A \<notin> set ''# Table of contents''" by simp
  have 2: "CHR 0x0A \<notin> set ''''" by simp
  show ?thesis
    using split_lines_append [OF 1] split_lines_append [OF 2]
    by (simp add: createSummaryFile_links)
qed

lemma link_no_newline: "CHR 0x0A \<notin> set p \<Longrightarrow> CHR 0x0A \<notin> set (link p)"
  by (simp add: link_def)

lemma link_not_Nil: "link p \<noteq> []"
  by (simp add: link_def)

lemma summary_links_pages:
  assumes "\<forall>f \<in> set gitBookFiles. CHR 0x0A \<notin> set (file_path f)"
  shows "summary_links (createSummaryFile gitBookFiles) = map (\<lambda>f. link (file_path f)) gitBookFiles"
proof (cases "gitBookFiles = []")
  case True
  then show ?thesis by (simp add: summary_links_def split_lines_summary)
next
  case False
  from assms have "\<forall>l \<in> set (map (\<lambda>f. link (file_path f)) gitBookFiles). CHR 0x0A \<notin> set l"
    by (simp add: link_no_newline)
  with False have "split_lines (join ''\<newline>'' (map (\<lambda>f. link (file_path f)) gitBookFiles))
                     = map (\<lambda>f. link (file_path f)) gitBookFiles"
    by (intro split_lines_join) simp_all
  then show ?thesis
    by (simp add: summary_links_def split_lines_summary filter_id_conv link_not_Nil)
qed

section \<open>The entries of the archive\<close>

text \<open>
  What \<^verbatim>\<open>createZipBundle\<close> stores: an entry is found under its name once it is added, and
  adding an entry changes no other entry whose name does not end in a slash.
\<close>

declare fileAdd.simps [simp del]

lemma fileAdd_entry:
  "map_get (files (fileAdd clock z nm is_dir content)) (entry_name nm is_dir)
     = Some \<lparr>dir = is_dir, data = content, date = clock (ticks z)\<rparr>"
  by (subst fileAdd.simps) (simp add: Let_def map_get_map_set)

lemma endsWith_forceTrailingSlash: "endsWith (forceTrailingSlash nm) ''/''"
  by (simp add: forceTrailingSlash_def endsWith_def)

lemma fileAdd_other:
  "\<not> endsWith k ''/'' \<Longrightarrow> k \<noteq> entry_name nm is_dir \<Longrightarrow>
     map_get (files (fileAdd clock z nm is_dir content)) k = map_get (files z) k"
proof (induction clock z nm is_dir content rule: fileAdd.induct)
  case (1 clock z nm is_dir content)
  let ?parent = "parentFolder (entry_name nm is_dir)"
  have dir_name: "k \<noteq> entry_name (forceTrailingSlash ?parent) True"
    using "1.prems"(1) endsWith_forceTrailingSlash [of "forceTrailingSlash ?parent"]
    by (auto simp: entry_name_def)
  show ?case
  proof (cases "?parent \<noteq> [] \<and> map_get (files z) (forceTrailingSlash ?parent) = None")
    case True
    from "1.IH" [OF refl True "1.prems"(1) dir_name] True "1.prems"(2) show ?thesis
      by (subst fileAdd.simps) (simp add: Let_def map_get_map_set)
  next
    case False
    with "1.prems"(2) show ?thesis
      by (subst fileAdd.simps) (auto simp: Let_def map_get_map_set)
  qed
qed

lemma fileAdd_flat:
  assumes "parentFolder (entry_name nm is_dir) = []
           \<or> map_get (files z) (forceTrailingSlash (parentFolder (entry_name nm is_dir))) \<noteq> None"
  shows "fileAdd clock z nm is_dir content
           = \<lparr>files = map_set (files z) (entry_name nm is_dir)
                        \<lparr>dir = is_dir, data = content, date = clock (ticks z)\<rparr>,
              ticks = Suc (ticks z)\<rparr>"
  using assms by (subst fileAdd.simps) (auto simp: Let_def)

lemma entry_data_zip_file_self:
  "entry_data (zip_file clock root z nm content) (root @ nm) = Some content"
  using fileAdd_entry [of clock z "root @ nm" False content]
  by (simp add: entry_data_def zip_file_def entry_name_def)

lemma entry_data_zip_file:
  "\<not> endsWith k ''/'' \<Longrightarrow>
     entry_data (zip_file clock root z nm content) k
       = (if k = root @ nm then Some content else entry_data z k)"
  using fileAdd_other [of k "root @ nm" False clock z content]
  by (simp add: entry_data_zip_file_self) (simp add: entry_data_def zip_file_def entry_name_def)

lemma fst_zip_folder: "fst (zip_folder clock root z nm) = forceTrailingSlash (root @ nm)"
  by (simp add: zip_folder_def Let_def)

lemma createZipBundle_spec_text:
  "entry_data (createZipBundle clock gitBookFiles spec parsedSpec) ''.gitbook/openapi.yaml'' = Some spec"
proof -
  have slash: "forceTrailingSlash ''.gitbook'' = ''.gitbook/''"
    by (simp add: forceTrailingSlash_def endsWith_def)
  have "entry_data (zip_file clock ''.gitbook/'' z ''openapi.yaml'' spec) (''.gitbook/'' @ ''openapi.yaml'')
          = Some spec" for z
    by (rule entry_data_zip_file_self)
  then show ?thesis
    by (simp add: createZipBundle_def Let_def split_beta fst_zip_folder slash)
qed

lemma handleFileUpload_Inr:
  assumes "handleFileUpload validate clock file_name text = Inr z"
  shows "\<exists>api m pages. validateFileIsJsonOrYaml file_name \<and> validate text = Inr api
           \<and> collateTags api = Inr m
           \<and> makePagesForTagGroups (declared_tags api) m = Inr pages
           \<and> z = createZipBundle clock pages text api"
  using assms by (auto simp: handleFileUpload_def split: if_splits sum.splits)

lemma entry_data_pages:
  "\<not> endsWith k ''/'' \<Longrightarrow>
   entry_data (foldl (\<lambda>b f. zip_file clock [] b (file_path f) (contents f)) z fs) k
     = (if k \<in> file_path ` set fs
        then Some (contents (last (filter (\<lambda>f. file_path f = k) fs)))
        else entry_data z k)"
proof (induction fs arbitrary: z rule: rev_induct)
  case Nil
  then show ?case by simp
next
  case (snoc f fs)
  then show ?case by (simp add: entry_data_zip_file)
qed

lemma entry_data_zip_folder:
  assumes "\<not> endsWith k ''/''"
  shows "entry_data (snd (zip_folder clock root z nm)) k = entry_data z k"
proof -
  let ?full = "forceTrailingSlash (root @ nm)"
  from assms endsWith_forceTrailingSlash [of ?full] have "k \<noteq> entry_name ?full True"
    by (auto simp: entry_name_def)
  from fileAdd_other [OF assms this]
  have "map_get (files (fileAdd clock z ?full True [])) k = map_get (files z) k" .
  then show ?thesis by (simp add: zip_folder_def Let_def entry_data_def)
qed

lemma createZipBundle_summary_entry:
  "entry_data (createZipBundle clock gitBookFiles spec parsedSpec) ''SUMMARY.md''
     = (if ''SUMMARY.md'' \<in> file_path ` set gitBookFiles
        then Some (contents (last (filter (\<lambda>f. file_path f = ''SUMMARY.md'') gitBookFiles)))
        else Some (createSummaryFile gitBookFiles))"
proof -
  have slash: "forceTrailingSlash ''.gitbook'' = ''.gitbook/''"
    by (simp add: forceTrailingSlash_def endsWith_def)
  have plain: "\<not> endsWith ''SUMMARY.md'' ''/''" by (simp add: endsWith_def)
  show ?thesis
    by (simp add: createZipBundle_def Let_def split_beta entry_data_zip_file [OF plain]
          entry_data_zip_folder [OF plain] entry_data_pages [OF plain] fst_zip_folder slash)
qed

section \<open>The pages of a tag map\<close>

text \<open>
  One page for each key, named after the tag the key points to.
\<close>

lemma createTagPage_Inr:
  "createTagPage tag_opt es = Inr f \<Longrightarrow> \<exists>t. tag_opt = Some t \<and> file_path f = name t @ ''.md''"
  by (auto simp: createTagPage_def split: option.splits)

lemma makePagesForTagGroups_Inr:
  "makePagesForTagGroups heap m = Inr pages \<Longrightarrow>
     list_all2 (\<lambda>f k. \<exists>t. deref heap k = Some t \<and> file_path f = name t @ ''.md'') pages (map fst m)"
proof (induction m arbitrary: pages)
  case Nil
  then show ?case by simp
next
  case (Cons kv m)
  obtain k es where kv: "kv = (k, es)" by (cases kv)
  from Cons.prems obtain f fs where f: "createTagPage (deref heap k) es = Inr f"
    and fs: "makePagesForTagGroups heap m = Inr fs" and pages: "pages = f # fs"
    by (auto simp: kv split: sum.splits)
  from createTagPage_Inr [OF f] Cons.IH [OF fs] show ?case by (simp add: kv pages)
qed

lemma link_inj: "link p = link q \<Longrightarrow> p = q"
proof -
  assume eq: "link p = link q"
  then have "length (link p) = length (link q)" by simp
  then have "length p = length q" by (simp add: link_def)
  with eq show "p = q" by (simp add: link_def)
qed

lemma keys_of_collateTags:
  assumes "collateTags api = Inr m" and "paths api = Some ps"
  shows "map fst m = rev (remdups (rev (map fst (insertions (declared_tags api) (operations ps)))))"
  using collateTags_Inr [OF assms(1)] assms(2) by (auto simp: keys_first_insertion)

lemma fst_insertions:
  "fst ` set (insertions heap es) = (\<Union>e \<in> set es. set (endpoint_keys heap e))"
  by (induction es) (auto simp: insertions_def image_Un image_image)

lemma list_all2_set1:
  "list_all2 P xs ys \<Longrightarrow> x \<in> set xs \<Longrightarrow> \<exists>y \<in> set ys. P x y"
  by (induction rule: list_all2_induct) auto

lemma deref_declared:
  assumes "deref heap k = Some t" and "k \<noteq> RefUntagged"
  shows "t \<in> set heap"
  using assms by (cases k) (auto split: if_splits)

section \<open>Undeclared tag names\<close>

text \<open>
  A tag name that no declared tag carries resolves to \<^verbatim>\<open>undefined\<close>; the key
  \<^verbatim>\<open>undefined\<close> is then in the map, and making the pages raises.
\<close>

lemma find_from_undefined_iff:
  "find_from i ts t = RefUndefined \<longleftrightarrow> t \<notin> name ` set ts"
  by (induction ts arbitrary: i) auto

lemma makePagesForTagGroups_error:
  "makePagesForTagGroups heap m = Inl err \<Longrightarrow> err = TypeError"
proof (induction m)
  case Nil
  then show ?case by simp
next
  case (Cons kv m)
  obtain k es where kv: "kv = (k, es)" by (cases kv)
  from Cons show ?case
    by (auto simp: kv createTagPage_def split: sum.splits option.splits)
qed

lemma makePagesForTagGroups_undefined:
  assumes "RefUndefined \<in> set (map fst m)"
  shows "makePagesForTagGroups heap m = Inl TypeError"
proof (cases "makePagesForTagGroups heap m")
  case (Inl err)
  with makePagesForTagGroups_error show ?thesis by blast
next
  case (Inr pages)
  have "\<forall>k \<in> set (map fst m). \<exists>t. deref heap k = Some t"
    using makePagesForTagGroups_Inr [OF Inr]
    by (induction rule: list_all2_induct) auto
  with assms have "\<exists>t. deref heap RefUndefined = Some t" by blast
  then have False by simp
  then show ?thesis ..
qed

lemma unknown_tag_reference_general:
  assumes run: "collateTags api = Inr m" and ps: "paths api = Some ps"
    and e: "e \<in> set (operations ps)" and ts: "tags (operationObject e) = Some ts"
    and t: "t \<in> set ts" and unknown: "t \<notin> name ` set (declared_tags api)"
  shows "RefUndefined \<in> set (map fst m)"
    and "makePagesForTagGroups (declared_tags api) m = Inl TypeError"
proof -
  from t have "ts \<noteq> []" by auto
  from unknown have "find_tag (declared_tags api) t = RefUndefined"
    by (simp add: find_tag_def find_from_undefined_iff)
  with t have "RefUndefined \<in> find_tag (declared_tags api) ` set ts" by force
  with ts \<open>ts \<noteq> []\<close> have "RefUndefined \<in> set (endpoint_keys (declared_tags api) e)"
    by (simp add: endpoint_keys_def)
  with e have "RefUndefined \<in> fst ` set (insertions (declared_tags api) (operations ps))"
    unfolding fst_insertions by blast
  then show key: "RefUndefined \<in> set (map fst m)"
    by (simp add: keys_of_collateTags [OF run ps])
  then show "makePagesForTagGroups (declared_tags api) m = Inl TypeError"
    by (rule makePagesForTagGroups_undefined)
qed

section \<open>Runs on the example documents\<close>

text \<open>
  The tag maps, page names and archives of the example documents.
\<close>

lemma collateTags_petstore: "collateTags petstore = Inr petstore_groups"
  by (simp add: collateTags_def petstore_def petstore_paths_def petstore_groups_def operations_def
        collate_operation_def append_endpoint_def get_or_empty_def find_tag_def)

lemma pages_petstore:
  "\<exists>pages. makePagesForTagGroups (declared_tags petstore) petstore_groups = Inr pages
     \<and> map file_path pages = [''pets.md'', ''__internal-untagged.md'']"
  by (simp add: declared_tags_def petstore_def petstore_groups_def createTagPage_def
        untaggedTag_def)

lemma collateTags_all_tagged: "collateTags all_tagged_doc = Inr all_tagged_groups"
  by (simp add: collateTags_def all_tagged_doc_def all_tagged_paths_def all_tagged_groups_def
        operations_def
        collate_operation_def append_endpoint_def get_or_empty_def find_tag_def)

lemma pages_all_tagged:
  "\<exists>pages. makePagesForTagGroups (declared_tags all_tagged_doc) all_tagged_groups = Inr pages
     \<and> map file_path pages = [''pets.md'', ''admin.md'']"
  by (simp add: declared_tags_def all_tagged_doc_def all_tagged_groups_def createTagPage_def)

lemma json_name: "validateFileIsJsonOrYaml ''petstore.json''"
  by (simp add: validateFileIsJsonOrYaml_def endsWith_def)

lemma handleFileUpload_petstore:
  "\<exists>z. handleFileUpload (\<lambda>text. Inr petstore) clock ''petstore.json'' text = Inr z"
proof -
  from pages_petstore obtain pages
    where "makePagesForTagGroups (declared_tags petstore) petstore_groups = Inr pages"
    by (elim exE conjE) (rule that)
  then show ?thesis
    by (simp add: handleFileUpload_def json_name collateTags_petstore)
qed

lemma yaml_name: "validateFileIsJsonOrYaml ''petstore.yaml''"
  by (simp add: validateFileIsJsonOrYaml_def endsWith_def)

lemma bundle_two_pages:
  assumes "map file_path pages = [''pets.md'', ''__internal-untagged.md'']"
  shows "map fst (files (createZipBundle clock pages text api))
           = [''SUMMARY.md'', ''README.md'', ''pets.md'', ''__internal-untagged.md'',
              ''.gitbook/'', ''.gitbook/openapi.yaml'']"
proof -
  from assms obtain p1 p2 where pages: "pages = [p1, p2]"
    and p1: "file_path p1 = ''pets.md''" and p2: "file_path p2 = ''__internal-untagged.md''"
    by (auto simp: map_eq_Cons_conv)
  show ?thesis
    by (simp add: createZipBundle_def Let_def pages p1 p2 zip_file_def zip_folder_def
          fileAdd_flat entry_name_def parentFolder_def forceTrailingSlash_def endsWith_def)
qed

section \<open>The claims\<close>

text \<open>
  Claim C1 (grouping completeness). The claim is about every valid document and says that an
  operation with no tag lands in the untagged group. OpenAPI lets an operation leave
  \<^verbatim>\<open>tags\<close> out, lets a path item carry \<^verbatim>\<open>parameters\<close> beside its operations, and lets a
  document leave its tag list out. On such documents \<^verbatim>\<open>collateTags\<close> raises a
  \<^verbatim>\<open>TypeError\<close> and returns no groups, though the flattening holds the endpoint that
  should have been filed.
\<close>

theorem collateTags_raises_on_valid_documents:
  "collateTags no_tags_field_doc = Inl TypeError
   \<and> \<lparr>operationObject = \<lparr>tags = None, operationId = Some ''createOwner''\<rparr>,
       path = ''/owners'', operation = ''post''\<rparr> \<in> set (operations no_tags_field_paths)
   \<and> handleFileUpload (\<lambda>text. Inr no_tags_field_doc) clock ''api.yaml'' text = Inl TypeError
   \<and> collateTags path_parameters_doc = Inl TypeError
   \<and> collateTags no_tag_list_doc = Inl TypeError"
proof -
  have 1: "collateTags no_tags_field_doc = Inl TypeError"
    by (simp add: collateTags_def no_tags_field_doc_def no_tags_field_paths_def operations_def
          collate_operation_def append_endpoint_def get_or_empty_def find_tag_def)
  have 2: "\<lparr>operationObject = \<lparr>tags = None, operationId = Some ''createOwner''\<rparr>,
       path = ''/owners'', operation = ''post''\<rparr> \<in> set (operations no_tags_field_paths)"
    by (simp add: no_tags_field_paths_def operations_def)
  have name: "validateFileIsJsonOrYaml ''api.yaml''"
    by (simp add: validateFileIsJsonOrYaml_def endsWith_def)
  have 3: "handleFileUpload (\<lambda>text. Inr no_tags_field_doc) clock ''api.yaml'' text = Inl TypeError"
    by (simp add: handleFileUpload_def name 1)
  have 4: "collateTags path_parameters_doc = Inl TypeError"
    by (simp add: collateTags_def path_parameters_doc_def operations_def collate_operation_def)
  have 5: "collateTags no_tag_list_doc = Inl TypeError"
    by (simp add: collateTags_def no_tag_list_doc_def operations_def collate_operation_def)
  from 1 2 3 4 5 show ?thesis by (intro conjI)
qed

text \<open>
  Claim C2 (unknown tag reference). The claim asks for one explicit policy: the error
  \<^verbatim>\<open>UnknownTagReference\<close> or a placeholder group. On a document whose operation names the
  undeclared tag \<^verbatim>\<open>missing\<close>, \<^verbatim>\<open>collateTags\<close> files the endpoint under the key
  \<^verbatim>\<open>undefined\<close>, and the run ends in the \<^verbatim>\<open>TypeError\<close> that \<^verbatim>\<open>createTagPage\<close> raises on that key.
\<close>

theorem unknown_tag_reference_unhandled:
  "collateTags unknown_tag_doc = Inr unknown_tag_groups
   \<and> map fst unknown_tag_groups = [RefUndefined]
   \<and> makePagesForTagGroups (declared_tags unknown_tag_doc) unknown_tag_groups = Inl TypeError
   \<and> handleFileUpload (\<lambda>text. Inr unknown_tag_doc) clock ''api.yaml'' text = Inl TypeError"
proof -
  have run: "collateTags unknown_tag_doc = Inr unknown_tag_groups"
    by (simp add: collateTags_def unknown_tag_doc_def unknown_tag_groups_def operations_def
          collate_operation_def append_endpoint_def get_or_empty_def find_tag_def)
  have key: "map fst unknown_tag_groups = [RefUndefined]"
    by (simp add: unknown_tag_groups_def)
  have pages: "makePagesForTagGroups (declared_tags unknown_tag_doc) unknown_tag_groups
                 = Inl TypeError"
    by (simp add: unknown_tag_groups_def createTagPage_def)
  have name: "validateFileIsJsonOrYaml ''api.yaml''"
    by (simp add: validateFileIsJsonOrYaml_def endsWith_def)
  have "handleFileUpload (\<lambda>text. Inr unknown_tag_doc) clock ''api.yaml'' text = Inl TypeError"
    by (simp add: handleFileUpload_def name run pages)
  with run key pages show ?thesis by (intro conjI)
qed

text \<open>
  Claim C3 (page rendering). The claim says the description is left out when the tag has
  none and that there is no text for absent external docs. For a tag with a name only, the
  page holds the word \<^verbatim>\<open>undefined\<close> in both places, with no endpoint and with the one
  endpoint the tag has in the example document.
\<close>

theorem createTagPage_prints_undefined:
  \<open>createTagPage (Some bare_tag) []
     = Inr \<lparr>file_path = ''pets.md'', contents = ''# pets\<newline>\<newline>undefined\<newline>\<newline>undefined''\<rparr>
   \<and> createTagPage (Some bare_tag)
        [\<lparr>operationObject = \<lparr>tags = Some [''pets''], operationId = None\<rparr>,
          path = ''/pets'', operation = ''get''\<rparr>]
     = Inr \<lparr>file_path = ''pets.md'',
            contents = ''# pets\<newline>\<newline>undefined\<newline>\<newline>undefined\<newline>\<newline>\<newline>{% swagger src="./.gitbook/assets/openapi.yaml" path="/pets" method="get" %}\<newline>[openapi.yaml](<./.gitbook/assets/openapi.yaml>)\<newline>{% endswagger %}''\<rparr>\<close>
  by (simp add: createTagPage_def bare_tag_def js_string_def trim_def isWhiteSpace_def
        createGitBookOpenAPITag_def)

text \<open>
  Claim C4 (reference to the bundled spec). The claim says the path named in a block is the
  path the assembler stores the spec under. The block names
  \<^verbatim>\<open>./.gitbook/assets/openapi.yaml\<close>; the archive of the example run holds the spec at
  \<^verbatim>\<open>.gitbook/openapi.yaml\<close> and has no entry at \<^verbatim>\<open>.gitbook/assets/openapi.yaml\<close>.
\<close>

theorem swagger_block_misses_spec_entry:
  \<open>createGitBookOpenAPITag
      \<lparr>operationObject = \<lparr>tags = Some [''pets''], operationId = None\<rparr>,
        path = ''/pets'', operation = ''get''\<rparr>
     = ''\<newline>{% swagger src="./.gitbook/assets/openapi.yaml" path="/pets" method="get" %}\<newline>[openapi.yaml](<./.gitbook/assets/openapi.yaml>)\<newline>{% endswagger %}\<newline>  ''
   \<and> (\<exists>z. handleFileUpload (\<lambda>text. Inr petstore) clock ''petstore.yaml'' text = Inr z
          \<and> map fst (files z)
               = [''SUMMARY.md'', ''README.md'', ''pets.md'', ''__internal-untagged.md'',
                  ''.gitbook/'', ''.gitbook/openapi.yaml'']
          \<and> entry_data z ''.gitbook/openapi.yaml'' = Some text
          \<and> entry_data z ''.gitbook/assets/openapi.yaml'' = None)\<close>
proof -
  have block: \<open>createGitBookOpenAPITag
      \<lparr>operationObject = \<lparr>tags = Some [''pets''], operationId = None\<rparr>,
        path = ''/pets'', operation = ''get''\<rparr>
     = ''\<newline>{% swagger src="./.gitbook/assets/openapi.yaml" path="/pets" method="get" %}\<newline>[openapi.yaml](<./.gitbook/assets/openapi.yaml>)\<newline>{% endswagger %}\<newline>  ''\<close>
    by (simp add: createGitBookOpenAPITag_def)
  from pages_petstore obtain pages
    where pages: "makePagesForTagGroups (declared_tags petstore) petstore_groups = Inr pages"
      and names: "map file_path pages = [''pets.md'', ''__internal-untagged.md'']"
    by (elim exE conjE) (rule that)
  let ?z = "createZipBundle clock pages text petstore"
  from pages have run: "handleFileUpload (\<lambda>text. Inr petstore) clock ''petstore.yaml'' text = Inr ?z"
    by (simp add: handleFileUpload_def yaml_name collateTags_petstore)
  have keys: "map fst (files ?z)
               = [''SUMMARY.md'', ''README.md'', ''pets.md'', ''__internal-untagged.md'',
                  ''.gitbook/'', ''.gitbook/openapi.yaml'']"
    by (rule bundle_two_pages [OF names])
  have spec: "entry_data ?z ''.gitbook/openapi.yaml'' = Some text"
    using createZipBundle_spec_text by simp
  have "''.gitbook/assets/openapi.yaml'' \<notin> set (map fst (files ?z))"
    by (simp only: keys) simp
  then have assets: "entry_data ?z ''.gitbook/assets/openapi.yaml'' = None"
    by (simp add: entry_data_def map_get_None_iff [THEN iffD2] del: set_map)
  show ?thesis
    by (intro exI conjI) (rule block, rule run, rule keys, rule spec, rule assets)
qed

text \<open>
  Claim C5 (summary and pages). The summary is the heading followed by one link
  \<^verbatim>\<open>[path](path)\<close> for each page, in page order; when no page path holds a line feed these
  links are exactly the lines after the heading. The pages are the keys of the tag map in
  map order, each named after its tag, and the keys of the map are in the order of their
  first insertion during collation.
\<close>

theorem summary_links_are_pages:
  assumes run: "collateTags api = Inr m" and ps: "paths api = Some ps"
    and pages: "makePagesForTagGroups (declared_tags api) m = Inr pages"
  shows "createSummaryFile pages
           = ''# Table of contents\<newline>\<newline>'' @ join ''\<newline>'' (map (\<lambda>f. link (file_path f)) pages)
         \<and> ((\<forall>f \<in> set pages. CHR 0x0A \<notin> set (file_path f)) \<longrightarrow>
               summary_links (createSummaryFile pages) = map (\<lambda>f. link (file_path f)) pages)
         \<and> list_all2 (\<lambda>f k. \<exists>t. deref (declared_tags api) k = Some t \<and> file_path f = name t @ ''.md'')
              pages (map fst m)
         \<and> map fst m = rev (remdups (rev (map fst (insertions (declared_tags api) (operations ps)))))"
  using createSummaryFile_links [of pages] summary_links_pages [of pages]
    makePagesForTagGroups_Inr [OF pages] keys_of_collateTags [OF run ps]
  by simp

text \<open>
  The example run: two pages, two links, in insertion order.
\<close>

theorem summary_links_are_pages_witness:
  "\<exists>m pages. collateTags petstore = Inr m
      \<and> makePagesForTagGroups (declared_tags petstore) m = Inr pages
      \<and> map fst m = [RefDeclared 0, RefUntagged]
      \<and> summary_links (createSummaryFile pages)
           = [''[pets.md](pets.md)'', ''[__internal-untagged.md](__internal-untagged.md)'']"
proof -
  have run: "collateTags petstore = Inr petstore_groups" by (rule collateTags_petstore)
  from pages_petstore obtain pages
    where pages: "makePagesForTagGroups (declared_tags petstore) petstore_groups = Inr pages"
      and names: "map file_path pages = [''pets.md'', ''__internal-untagged.md'']"
    by (elim exE conjE) (rule that)
  have ps: "paths petstore = Some petstore_paths" by (simp add: petstore_def)
  have "\<forall>p \<in> set (map file_path pages). CHR 0x0A \<notin> set p"
    by (simp only: names) simp
  then have lines: "\<forall>f \<in> set pages. CHR 0x0A \<notin> set (file_path f)"
    by simp
  have "map (\<lambda>f. link (file_path f)) pages = map link (map file_path pages)" by simp
  also have "\<dots> = [''[pets.md](pets.md)'', ''[__internal-untagged.md](__internal-untagged.md)'']"
    by (simp only: names) (simp add: link_def)
  finally have links: "map (\<lambda>f. link (file_path f)) pages
      = [''[pets.md](pets.md)'', ''[__internal-untagged.md](__internal-untagged.md)'']" .
  from summary_links_are_pages [OF run ps pages]
  have "(\<forall>f \<in> set pages. CHR 0x0A \<notin> set (file_path f)) \<longrightarrow>
          summary_links (createSummaryFile pages) = map (\<lambda>f. link (file_path f)) pages"
    by (elim conjE)
  with lines have "summary_links (createSummaryFile pages) = map (\<lambda>f. link (file_path f)) pages"
    by (rule rev_mp)
  with links have summary: "summary_links (createSummaryFile pages)
      = [''[pets.md](pets.md)'', ''[__internal-untagged.md](__internal-untagged.md)'']"
    by (simp only:)
  have keys: "map fst petstore_groups = [RefDeclared 0, RefUntagged]"
    by (simp add: petstore_groups_def)
  show ?thesis
    by (intro exI conjI) (rule run, rule pages, rule keys, rule summary)
qed

text \<open>
  Claim C6 (verbatim embedding). For every page list, text and document, the entry
  \<^verbatim>\<open>.gitbook/openapi.yaml\<close> of the archive \<^verbatim>\<open>createZipBundle\<close> builds holds the text it
  was given; so whenever a run produces an archive, that entry holds the decoded input text
  itself, whatever the text is and whatever the file is called.
\<close>

theorem spec_embedded_verbatim:
  "entry_data (createZipBundle clock gitBookFiles spec parsedSpec) ''.gitbook/openapi.yaml'' = Some spec
   \<and> (\<forall>validate file_name z.
         handleFileUpload validate clock file_name spec = Inr z \<longrightarrow>
           entry_data z ''.gitbook/openapi.yaml'' = Some spec)"
proof (intro conjI allI impI)
  show "entry_data (createZipBundle clock gitBookFiles spec parsedSpec) ''.gitbook/openapi.yaml''
          = Some spec"
    by (rule createZipBundle_spec_text)
next
  fix validate file_name z
  assume "handleFileUpload validate clock file_name spec = Inr z"
  from handleFileUpload_Inr [OF this] obtain api pages
    where "z = createZipBundle clock pages spec api" by blast
  then show "entry_data z ''.gitbook/openapi.yaml'' = Some spec"
    by (simp add: createZipBundle_spec_text)
qed

text \<open>
  A run on a JSON text.
\<close>

theorem spec_embedded_verbatim_witness:
  "\<exists>z. handleFileUpload (\<lambda>text. Inr petstore) (\<lambda>k. k) ''petstore.json'' petstore_json = Inr z
      \<and> entry_data z ''.gitbook/openapi.yaml'' = Some petstore_json"
proof -
  from handleFileUpload_petstore [of "\<lambda>k. k" petstore_json] obtain z
    where z: "handleFileUpload (\<lambda>text. Inr petstore) (\<lambda>k. k) ''petstore.json'' petstore_json = Inr z"
    by (elim exE) (rule that)
  from spec_embedded_verbatim [of "\<lambda>k. k" "[]" petstore_json petstore]
  have "\<forall>validate file_name z.
          handleFileUpload validate (\<lambda>k. k) file_name petstore_json = Inr z \<longrightarrow>
            entry_data z ''.gitbook/openapi.yaml'' = Some petstore_json"
    by (rule conjunct2)
  then have "handleFileUpload (\<lambda>text. Inr petstore) (\<lambda>k. k) ''petstore.json'' petstore_json = Inr z \<longrightarrow>
               entry_data z ''.gitbook/openapi.yaml'' = Some petstore_json"
    by (elim allE)
  with z have "entry_data z ''.gitbook/openapi.yaml'' = Some petstore_json"
    by (rule rev_mp)
  with z show ?thesis by (intro exI conjI)
qed

text \<open>
  Claim C7 (untagged suppression). When every operation has a tag, the untagged key is not
  in the tag map; every page that is made is the page of a declared tag, the summary links
  exactly these pages, and unless a declared tag itself carries the reserved name, no link
  to \<^verbatim>\<open>__internal-untagged.md\<close> is among them.
\<close>

theorem untagged_page_suppressed:
  assumes run: "collateTags api = Inr m" and ps: "paths api = Some ps"
    and tagged: "\<forall>e \<in> set (operations ps). \<exists>ts. tags (operationObject e) = Some ts \<and> ts \<noteq> []"
  shows "RefUntagged \<notin> fst ` set m
         \<and> (\<forall>pages. makePagesForTagGroups (declared_tags api) m = Inr pages \<longrightarrow>
               (\<forall>f \<in> set pages. \<exists>t \<in> set (declared_tags api). file_path f = name t @ ''.md'')
               \<and> createSummaryFile pages
                   = ''# Table of contents\<newline>\<newline>'' @ join ''\<newline>'' (map (\<lambda>f. link (file_path f)) pages)
               \<and> ((\<forall>t \<in> set (declared_tags api). name t \<noteq> name untaggedTag) \<longrightarrow>
                     link (name untaggedTag @ ''.md'') \<notin> set (map (\<lambda>f. link (file_path f)) pages)))"
proof -
  let ?heap = "declared_tags api"
  have keys: "set (map fst m) = (\<Union>e \<in> set (operations ps). set (endpoint_keys ?heap e))"
    using keys_of_collateTags [OF run ps] fst_insertions [of ?heap "operations ps"] by simp
  have no_untagged: "RefUntagged \<notin> set (map fst m)"
  proof
    assume "RefUntagged \<in> set (map fst m)"
    with keys obtain e where e: "e \<in> set (operations ps)" and k: "RefUntagged \<in> set (endpoint_keys ?heap e)"
      by auto
    from tagged e obtain ts where "tags (operationObject e) = Some ts" "ts \<noteq> []" by blast
    with k show False
      by (auto simp: endpoint_keys_def find_tag_def find_from_not_untagged [THEN not_sym])
  qed
  have pages: "(\<forall>f \<in> set pages. \<exists>t \<in> set ?heap. file_path f = name t @ ''.md'')
        \<and> createSummaryFile pages
             = ''# Table of contents\<newline>\<newline>'' @ join ''\<newline>'' (map (\<lambda>f. link (file_path f)) pages)
        \<and> ((\<forall>t \<in> set ?heap. name t \<noteq> name untaggedTag) \<longrightarrow>
              link (name untaggedTag @ ''.md'') \<notin> set (map (\<lambda>f. link (file_path f)) pages))"
    if made: "makePagesForTagGroups ?heap m = Inr pages" for pages
  proof -
    have declared: "\<exists>t \<in> set ?heap. file_path f = name t @ ''.md''" if f: "f \<in> set pages" for f
    proof -
      from list_all2_set1 [OF makePagesForTagGroups_Inr [OF made] f]
      obtain k t where k: "k \<in> set (map fst m)" and t: "deref ?heap k = Some t"
        and path: "file_path f = name t @ ''.md''" by blast
      from k no_untagged have "k \<noteq> RefUntagged" by blast
      from deref_declared [OF t this] path show ?thesis by blast
    qed
    have "link (name untaggedTag @ ''.md'') \<notin> set (map (\<lambda>f. link (file_path f)) pages)"
      if distinct_name: "\<forall>t \<in> set ?heap. name t \<noteq> name untaggedTag"
    proof
      assume "link (name untaggedTag @ ''.md'') \<in> set (map (\<lambda>f. link (file_path f)) pages)"
      then obtain f where f: "f \<in> set pages" and "link (name untaggedTag @ ''.md'') = link (file_path f)"
        by auto
      then have "file_path f = name untaggedTag @ ''.md''" by (simp add: link_inj)
      with declared [OF f] distinct_name show False by auto
    qed
    with declared createSummaryFile_links [of pages] show ?thesis by simp
  qed
  from no_untagged pages show ?thesis by simp
qed

text \<open>
  A run on a document whose operations all have tags.
\<close>

theorem untagged_page_suppressed_witness:
  "\<exists>m pages. collateTags all_tagged_doc = Inr m
      \<and> makePagesForTagGroups (declared_tags all_tagged_doc) m = Inr pages
      \<and> RefUntagged \<notin> fst ` set m
      \<and> map file_path pages = [''pets.md'', ''admin.md'']
      \<and> link ''__internal-untagged.md'' \<notin> set (map (\<lambda>f. link (file_path f)) pages)"
proof -
  have run: "collateTags all_tagged_doc = Inr all_tagged_groups" by (rule collateTags_all_tagged)
  from pages_all_tagged obtain pages
    where pages: "makePagesForTagGroups (declared_tags all_tagged_doc) all_tagged_groups = Inr pages"
      and names: "map file_path pages = [''pets.md'', ''admin.md'']"
    by (elim exE conjE) (rule that)
  have ps: "paths all_tagged_doc = Some all_tagged_paths" by (simp add: all_tagged_doc_def)
  have tagged: "\<forall>e \<in> set (operations all_tagged_paths).
                  \<exists>ts. tags (operationObject e) = Some ts \<and> ts \<noteq> []"
    by (simp add: all_tagged_paths_def operations_def)
  have fresh: "\<forall>t \<in> set (declared_tags all_tagged_doc). name t \<noteq> name untaggedTag"
    by (simp add: declared_tags_def all_tagged_doc_def untaggedTag_def)
  have untagged_path: "name untaggedTag @ ''.md'' = ''__internal-untagged.md''"
    by (simp add: untaggedTag_def)
  note inst = untagged_page_suppressed [OF run ps tagged]
  from inst have key: "RefUntagged \<notin> fst ` set all_tagged_groups" by (rule conjunct1)
  from inst have "\<forall>pages. makePagesForTagGroups (declared_tags all_tagged_doc) all_tagged_groups = Inr pages \<longrightarrow>
               (\<forall>f \<in> set pages. \<exists>t \<in> set (declared_tags all_tagged_doc). file_path f = name t @ ''.md'')
               \<and> createSummaryFile pages
                   = ''# Table of contents\<newline>\<newline>'' @ join ''\<newline>'' (map (\<lambda>f. link (file_path f)) pages)
               \<and> ((\<forall>t \<in> set (declared_tags all_tagged_doc). name t \<noteq> name untaggedTag) \<longrightarrow>
                     link (name untaggedTag @ ''.md'') \<notin> set (map (\<lambda>f. link (file_path f)) pages))"
    by (rule conjunct2)
  then have "makePagesForTagGroups (declared_tags all_tagged_doc) all_tagged_groups = Inr pages \<longrightarrow>
               (\<forall>f \<in> set pages. \<exists>t \<in> set (declared_tags all_tagged_doc). file_path f = name t @ ''.md'')
               \<and> createSummaryFile pages
                   = ''# Table of contents\<newline>\<newline>'' @ join ''\<newline>'' (map (\<lambda>f. link (file_path f)) pages)
               \<and> ((\<forall>t \<in> set (declared_tags all_tagged_doc). name t \<noteq> name untaggedTag) \<longrightarrow>
                     link (name untaggedTag @ ''.md'') \<notin> set (map (\<lambda>f. link (file_path f)) pages))"
    by (rule spec)
  with pages have "(\<forall>f \<in> set pages. \<exists>t \<in> set (declared_tags all_tagged_doc). file_path f = name t @ ''.md'')
               \<and> createSummaryFile pages
                   = ''# Table of contents\<newline>\<newline>'' @ join ''\<newline>'' (map (\<lambda>f. link (file_path f)) pages)
               \<and> ((\<forall>t \<in> set (declared_tags all_tagged_doc). name t \<noteq> name untaggedTag) \<longrightarrow>
                     link (name untaggedTag @ ''.md'') \<notin> set (map (\<lambda>f. link (file_path f)) pages))"
    by (rule rev_mp)
  then have "(\<forall>t \<in> set (declared_tags all_tagged_doc). name t \<noteq> name untaggedTag) \<longrightarrow>
               link (name untaggedTag @ ''.md'') \<notin> set (map (\<lambda>f. link (file_path f)) pages)"
    by (elim conjE)
  with fresh have "link (name untaggedTag @ ''.md'') \<notin> set (map (\<lambda>f. link (file_path f)) pages)"
    by (rule rev_mp)
  then have no_link: "link ''__internal-untagged.md'' \<notin> set (map (\<lambda>f. link (file_path f)) pages)"
    unfolding untagged_path .
  show ?thesis
    by (intro exI conjI) (rule run, rule pages, rule key, rule names, rule no_link)
qed

text \<open>
  Claim C9 (summary heading). The first line of every summary is \<^verbatim>\<open># Table of contents\<close>,
  the second line is empty, and the links follow.
\<close>

theorem createSummaryFile_heading:
  "\<exists>rest. split_lines (createSummaryFile gitBookFiles) = ''# Table of contents'' # [] # rest
          \<and> rest \<noteq> []
          \<and> createSummaryFile gitBookFiles
               = ''# Table of contents\<newline>\<newline>'' @ join ''\<newline>'' (map (\<lambda>f. link (file_path f)) gitBookFiles)"
  by (simp add: split_lines_summary split_lines_not_Nil createSummaryFile_links)

text \<open>
  Claim C10 (missing tags field). When some entry of a path item has no \<^verbatim>\<open>tags\<close>,
  \<^verbatim>\<open>collateTags\<close> raises a \<^verbatim>\<open>TypeError\<close> and every run on the document ends in an error,
  without an archive.
\<close>

theorem collateTags_requires_tags_array:
  assumes ps: "paths api = Some ps"
    and e: "e \<in> set (operations ps)"
    and none: "tags (operationObject e) = None"
  shows "collateTags api = Inl TypeError
         \<and> (\<forall>validate clock file_name text. validate text = Inr api \<longrightarrow>
               handleFileUpload validate clock file_name text
                 = Inl (if validateFileIsJsonOrYaml file_name then TypeError else NotJsonOrYaml))"
proof -
  have "\<not> collatable api"
  proof
    assume "collatable api"
    with ps e have "tags (operationObject e) \<noteq> None"
      by (auto simp: collatable_def split: option.splits)
    with none show False by simp
  qed
  then have "\<not> (\<exists>m. collateTags api = Inr m)" by (simp add: collateTags_Inr_iff)
  then obtain err where err: "collateTags api = Inl err" by (cases "collateTags api") auto
  from collateTags_error [OF err] err have fails: "collateTags api = Inl TypeError" by simp
  then show ?thesis by (simp add: handleFileUpload_def)
qed

text \<open>
  A document with one operation that has no \<^verbatim>\<open>tags\<close>.
\<close>

theorem collateTags_requires_tags_array_witness:
  "collateTags untagged_field_doc = Inl TypeError
   \<and> handleFileUpload (\<lambda>text. Inr untagged_field_doc) (\<lambda>k. k) ''api.yaml'' ''openapi: 3.0.0''
       = Inl TypeError"
proof -
  let ?ps = "[(''/pets'', [(''get'', \<lparr>tags = None, operationId = Some ''listPets''\<rparr>)])]"
  let ?e = "\<lparr>operationObject = \<lparr>tags = None, operationId = Some ''listPets''\<rparr>,
             path = ''/pets'', operation = ''get''\<rparr>"
  have ps: "paths untagged_field_doc = Some ?ps" by (simp add: untagged_field_doc_def)
  have e: "?e \<in> set (operations ?ps)" by (simp add: operations_def)
  have none: "tags (operationObject ?e) = None" by simp
  have name: "validateFileIsJsonOrYaml ''api.yaml''"
    by (simp add: validateFileIsJsonOrYaml_def endsWith_def)
  from collateTags_requires_tags_array [OF ps e none]
  have 1: "collateTags untagged_field_doc = Inl TypeError"
    and 2: "\<And>validate clock file_name text. validate text = Inr untagged_field_doc \<Longrightarrow>
               handleFileUpload validate clock file_name text
                 = Inl (if validateFileIsJsonOrYaml file_name then TypeError else NotJsonOrYaml)"
    by blast+
  from 2 [of "\<lambda>text. Inr untagged_field_doc" "''openapi: 3.0.0''" "\<lambda>k. k" "''api.yaml''"] name
  have "handleFileUpload (\<lambda>text. Inr untagged_field_doc) (\<lambda>k. k) ''api.yaml'' ''openapi: 3.0.0''
          = Inl TypeError" by simp
  with 1 show ?thesis by simp
qed

end
